theory Spec2Isabelle
  imports Main
begin

section \<open>The rectangle factory\<close>

text \<open>
  \<^verbatim>\<open>function Rectangle(width, height)\<close> returns an object literal with the two
  properties and a method \<^verbatim>\<open>getArea\<close> that multiplies the properties it finds on
  \<^verbatim>\<open>this\<close> when it is called. The number type and its product are left
  polymorphic: the method performs exactly one product, whatever the arithmetic is.
\<close>

record 'n Rectangle_obj =
  width :: 'n
  height :: 'n

definition Rectangle :: "'n \<Rightarrow> 'n \<Rightarrow> 'n Rectangle_obj" where
  "Rectangle w h = \<lparr>width = w, height = h\<rparr>"

definition getArea :: "('n::times) Rectangle_obj \<Rightarrow> 'n" where
  "getArea this = width this * height this"

section \<open>The selector builder\<close>

subsection \<open>Errors\<close>

text \<open>
  Both helpers throw a plain \<^verbatim>\<open>Error\<close>; the two differ by their message only.
  The message of \<^verbatim>\<open>error1\<close> is the duplicate error, that of \<^verbatim>\<open>error2\<close> the
  order error.
\<close>

datatype error = Error string

definition DuplicateError :: error where
  "DuplicateError = Error ''Element, id and pseudo-element should not occur more then one time inside the selector''"

definition OrderError :: error where
  "OrderError = Error ''Selector parts should be arranged in the following order: element, id, class, attribute, pseudo-class, pseudo-element''"

definition error1 :: "error + 'a" where
  "error1 = Inl DuplicateError"

definition error2 :: "error + 'a" where
  "error2 = Inl OrderError"

subsection \<open>The class SelectorCreator\<close>

record SelectorCreator =
  idData :: string
  elementData :: string
  classData :: "string list"
  attrData :: "string list"
  pseudoClassData :: "string list"
  pseudoElementData :: "string list"
  combinator :: string
  selector :: string
  line :: nat
  availableLine :: "string list"

definition constructor :: SelectorCreator where
  "constructor =
     \<lparr>idData = '''', elementData = '''', classData = [], attrData = [],
      pseudoClassData = [], pseudoElementData = [], combinator = '''', selector = '''',
      line = 0,
      availableLine = [''elementData'', ''idData'', ''classData'', ''attrData'',
                       ''pseudoClassData'', ''pseudoElementData'']\<rparr>"

text \<open>
  A method either throws (\<open>Inl\<close>) or returns \<^verbatim>\<open>this\<close> after its assignments
  (\<open>Inr\<close>). Every \<^verbatim>\<open>throw\<close> of the class comes before the first assignment of its
  method, so a call that throws leaves the object as it was. A string is truthy when
  it is not empty.
\<close>

definition id_frag :: "string \<Rightarrow> SelectorCreator \<Rightarrow> error + SelectorCreator" where
  "id_frag v this =
     (if line this > 2 then error2
      else if idData this \<noteq> [] then error1
      else Inr (this\<lparr>idData := ''#'' @ v, line := 2\<rparr>))"

definition element :: "string \<Rightarrow> SelectorCreator \<Rightarrow> error + SelectorCreator" where
  "element v this =
     (if line this > 1 then error2
      else if elementData this \<noteq> [] then error1
      else Inr (this\<lparr>elementData := v, line := 1\<rparr>))"

definition class_frag :: "string \<Rightarrow> SelectorCreator \<Rightarrow> error + SelectorCreator" where
  "class_frag v this =
     (if line this > 3 then error2
      else Inr (this\<lparr>classData := classData this @ [''.'' @ v], line := 3\<rparr>))"

definition attr :: "string \<Rightarrow> SelectorCreator \<Rightarrow> error + SelectorCreator" where
  "attr v this =
     (if line this > 4 then error2
      else Inr (this\<lparr>attrData := attrData this @ [''['' @ v @ '']''], line := 4\<rparr>))"

definition pseudoClass :: "string \<Rightarrow> SelectorCreator \<Rightarrow> error + SelectorCreator" where
  "pseudoClass v this =
     (if line this > 5 then error2
      else Inr (this\<lparr>pseudoClassData := pseudoClassData this @ ['':'' @ v], line := 5\<rparr>))"

definition pseudoElement :: "string \<Rightarrow> SelectorCreator \<Rightarrow> error + SelectorCreator" where
  "pseudoElement v this =
     (if line this > 6 then error2
      else if length (pseudoElementData this) \<noteq> 0 then error1
      else Inr (this\<lparr>pseudoElementData := pseudoElementData this @ [''::'' @ v], line := 6\<rparr>))"

definition setCombine :: "string \<Rightarrow> string \<Rightarrow> SelectorCreator \<Rightarrow> SelectorCreator" where
  "setCombine c s this = this\<lparr>combinator := c, selector := s\<rparr>"

text \<open>\<^verbatim>\<open>Array.prototype.join\<close> on an array of strings.\<close>

fun join :: "string \<Rightarrow> string list \<Rightarrow> string" where
  "join sep [] = []"
| "join sep [x] = x"
| "join sep (x # y # ys) = x @ sep @ join sep (y # ys)"

definition stringify :: "SelectorCreator \<Rightarrow> string" where
  "stringify this =
     (let link = combinator this;
          part1 = elementData this @ idData this @ join '''' (classData this);
          part2 = join '''' (attrData this) @ join '''' (pseudoClassData this);
          part3 = join '''' (pseudoElementData this) @ link
      in part1 @ part2 @ part3)"

subsection \<open>Chains of fragment calls\<close>

text \<open>
  A chain \<^verbatim>\<open>b.m1(v1).m2(v2)...\<close> calls each method on the object the previous one
  returned, which is \<^verbatim>\<open>this\<close>; the first throw ends the chain.
\<close>

datatype kind = KElement | KId | KClass | KAttr | KPseudoClass | KPseudoElement

type_synonym call = "kind \<times> string"

fun fragment :: "call \<Rightarrow> SelectorCreator \<Rightarrow> error + SelectorCreator" where
  "fragment (KElement, v) this = element v this"
| "fragment (KId, v) this = id_frag v this"
| "fragment (KClass, v) this = class_frag v this"
| "fragment (KAttr, v) this = attr v this"
| "fragment (KPseudoClass, v) this = pseudoClass v this"
| "fragment (KPseudoElement, v) this = pseudoElement v this"

fun chain :: "call list \<Rightarrow> SelectorCreator \<Rightarrow> error + SelectorCreator" where
  "chain [] this = Inr this"
| "chain (c # cs) this =
     (case fragment c this of Inl e \<Rightarrow> Inl e | Inr this' \<Rightarrow> chain cs this')"

subsection \<open>Objects, references and the facade\<close>

text \<open>
  Builders are objects that are changed in place and passed by reference. The store
  is the list of the objects allocated so far and a reference is an index into it;
  \<^verbatim>\<open>new\<close> appends. Calling a method through a reference writes the changed object
  back; a call that throws leaves the store as it was.
\<close>

type_synonym ref = nat

type_synonym heap = "SelectorCreator list"

definition new_SelectorCreator :: "heap \<Rightarrow> ref \<times> heap" where
  "new_SelectorCreator h = (length h, h @ [constructor])"

definition invoke ::
  "(SelectorCreator \<Rightarrow> error + SelectorCreator) \<Rightarrow> ref \<Rightarrow> heap \<Rightarrow> (error + ref) \<times> heap" where
  "invoke m r h =
     (case m (h ! r) of Inl e \<Rightarrow> (Inl e, h) | Inr this' \<Rightarrow> (Inr r, h[r := this']))"

definition cssSelectorBuilder_fragment :: "call \<Rightarrow> heap \<Rightarrow> (error + ref) \<times> heap" where
  "cssSelectorBuilder_fragment c h =
     (case new_SelectorCreator h of (r, h') \<Rightarrow> invoke (fragment c) r h')"

definition stringify_call :: "ref \<Rightarrow> heap \<Rightarrow> string \<times> heap" where
  "stringify_call r h = (stringify (h ! r), h)"

text \<open>
  \<^verbatim>\<open>combine\<close> allocates the new object, renders both operands into the template
  string and calls \<^verbatim>\<open>element\<close> on the new object with that string.
\<close>

definition combine :: "ref \<Rightarrow> string \<Rightarrow> ref \<Rightarrow> heap \<Rightarrow> (error + ref) \<times> heap" where
  "combine selector1 c selector2 h =
     (case new_SelectorCreator h of (r, h0) \<Rightarrow>
      case stringify_call selector1 h0 of (s1, h1) \<Rightarrow>
      case stringify_call selector2 h1 of (s2, h2) \<Rightarrow>
        invoke (element (s1 @ '' '' @ c @ '' '' @ s2)) r h2)"

text \<open>
  What a caller can do to an object it holds: call a fragment method or
  \<^verbatim>\<open>setCombine\<close>. A caller that catches a throw goes on with the store unchanged.
\<close>

datatype member_call = Fragment call | SetCombine string string

fun member_body :: "member_call \<Rightarrow> SelectorCreator \<Rightarrow> error + SelectorCreator" where
  "member_body (Fragment c) this = fragment c this"
| "member_body (SetCombine c s) this = Inr (setCombine c s this)"

fun mutate :: "(ref \<times> member_call) list \<Rightarrow> heap \<Rightarrow> heap" where
  "mutate [] h = h"
| "mutate ((r, m) # ops) h = mutate ops (snd (invoke (member_body m) r h))"

subsection \<open>The table of the specification\<close>

text \<open>The rank of each fragment kind and the text it is stored as, as the specification lists them.\<close>

fun spec_rank :: "kind \<Rightarrow> nat" where
  "spec_rank KElement = 1"
| "spec_rank KId = 2"
| "spec_rank KClass = 3"
| "spec_rank KAttr = 4"
| "spec_rank KPseudoClass = 5"
| "spec_rank KPseudoElement = 6"

fun spec_stored :: "call \<Rightarrow> string" where
  "spec_stored (KElement, v) = v"
| "spec_stored (KId, v) = ''#'' @ v"
| "spec_stored (KClass, v) = ''.'' @ v"
| "spec_stored (KAttr, v) = ''['' @ v @ '']''"
| "spec_stored (KPseudoClass, v) = '':'' @ v"
| "spec_stored (KPseudoElement, v) = ''::'' @ v"

text \<open>The stored texts of the calls of one kind, in call order, and their concatenation.\<close>

definition spec_stored_of :: "kind \<Rightarrow> call list \<Rightarrow> string list" where
  "spec_stored_of k cs = map spec_stored (filter (\<lambda>c. fst c = k) cs)"

definition spec_of_kind :: "kind \<Rightarrow> call list \<Rightarrow> string" where
  "spec_of_kind k cs = concat (spec_stored_of k cs)"

definition spec_render :: "call list \<Rightarrow> string" where
  "spec_render cs =
     spec_of_kind KElement cs @ spec_of_kind KId cs @ spec_of_kind KClass cs @
     spec_of_kind KAttr cs @ spec_of_kind KPseudoClass cs @ spec_of_kind KPseudoElement cs"

text \<open>
  A sequence of calls the specification allows: the ranks never decrease and element,
  id and pseudo-element occur at most once each.
\<close>

definition spec_valid :: "call list \<Rightarrow> bool" where
  "spec_valid cs \<longleftrightarrow>
     sorted (map (\<lambda>c. spec_rank (fst c)) cs) \<and>
     length (filter (\<lambda>c. fst c = KElement) cs) \<le> 1 \<and>
     length (filter (\<lambda>c. fst c = KId) cs) \<le> 1 \<and>
     length (filter (\<lambda>c. fst c = KPseudoElement) cs) \<le> 1"

text \<open>
  A builder admits a sequence of calls when its stage is at most every rank in the
  sequence and each singleton field the sequence is going to set is still empty.
\<close>

definition admits :: "SelectorCreator \<Rightarrow> call list \<Rightarrow> bool" where
  "admits this cs \<longleftrightarrow>
     (\<forall>c \<in> set cs. line this \<le> spec_rank (fst c)) \<and>
     (filter (\<lambda>c. fst c = KElement) cs \<noteq> [] \<longrightarrow> elementData this = []) \<and>
     (filter (\<lambda>c. fst c = KId) cs \<noteq> [] \<longrightarrow> idData this = []) \<and>
     (filter (\<lambda>c. fst c = KPseudoElement) cs \<noteq> [] \<longrightarrow> pseudoElementData this = [])"

section \<open>Basic facts\<close>

lemma DuplicateError_neq_OrderError [simp]:
  "DuplicateError \<noteq> OrderError" "OrderError \<noteq> DuplicateError"
  by (simp_all add: DuplicateError_def OrderError_def)

lemma join_empty [simp]: "join [] xs = concat xs"
  by (induction "[] :: string" xs rule: join.induct) simp_all

lemmas method_defs = element_def id_frag_def class_frag_def attr_def pseudoClass_def
  pseudoElement_def error1_def error2_def

subsection \<open>One call and a chain of calls\<close>

lemma fragment_Inr:
  "fragment (k, v) this = Inr this' \<Longrightarrow> line this' = spec_rank k \<and> line this \<le> line this'"
  by (cases k) (auto simp add: method_defs split: if_splits)

lemma chain_Cons_Inr:
  assumes "chain (c # cs) this = Inr this'"
  obtains mid where "fragment c this = Inr mid" and "chain cs mid = Inr this'"
  using assms by (auto split: sum.splits)

lemma chain_line_mono: "chain cs this = Inr this' \<Longrightarrow> line this \<le> line this'"
proof (induction cs arbitrary: this)
  case Nil
  then show ?case by simp
next
  case (Cons c cs)
  from Cons.prems obtain mid where step: "fragment c this = Inr mid"
    and rest: "chain cs mid = Inr this'"
    by (rule chain_Cons_Inr)
  from step have "line this \<le> line mid"
    by (cases c) (auto dest: fragment_Inr)
  also from rest have "line mid \<le> line this'"
    by (rule Cons.IH)
  finally show ?case .
qed

lemma chain_line_le_6:
  "chain cs this = Inr this' \<Longrightarrow> line this \<le> 6 \<Longrightarrow> line this' \<le> 6"
proof (induction cs arbitrary: this)
  case Nil
  then show ?case by simp
next
  case (Cons c cs)
  from Cons.prems(1) obtain mid where step: "fragment c this = Inr mid"
    and rest: "chain cs mid = Inr this'"
    by (rule chain_Cons_Inr)
  from step have "line mid \<le> 6"
    by (cases c; cases "fst c") (use fragment_Inr in fastforce)+
  with Cons.IH rest show ?case by blast
qed

text \<open>
  What a successful call adds to each field. The singleton fields are strings or lists
  that were empty before a successful call, so appending describes them too.
\<close>

lemma fragment_fields:
  assumes "fragment c this = Inr this'"
  shows "elementData this' = elementData this @ spec_of_kind KElement [c]"
    and "idData this' = idData this @ spec_of_kind KId [c]"
    and "classData this' = classData this @ spec_stored_of KClass [c]"
    and "attrData this' = attrData this @ spec_stored_of KAttr [c]"
    and "pseudoClassData this' = pseudoClassData this @ spec_stored_of KPseudoClass [c]"
    and "pseudoElementData this' = pseudoElementData this @ spec_stored_of KPseudoElement [c]"
    and "combinator this' = combinator this"
  using assms
  by (cases c; cases "fst c";
      auto simp add: method_defs spec_of_kind_def spec_stored_of_def split: if_splits)+

lemma of_kind_Cons:
  "spec_of_kind k (c # cs) = spec_of_kind k [c] @ spec_of_kind k cs"
  "spec_stored_of k (c # cs) = spec_stored_of k [c] @ spec_stored_of k cs"
  by (simp_all add: spec_of_kind_def spec_stored_of_def)

lemma chain_fields:
  assumes "chain cs this = Inr this'"
  shows "elementData this' = elementData this @ spec_of_kind KElement cs \<and>
     idData this' = idData this @ spec_of_kind KId cs \<and>
     classData this' = classData this @ spec_stored_of KClass cs \<and>
     attrData this' = attrData this @ spec_stored_of KAttr cs \<and>
     pseudoClassData this' = pseudoClassData this @ spec_stored_of KPseudoClass cs \<and>
     pseudoElementData this' = pseudoElementData this @ spec_stored_of KPseudoElement cs \<and>
     combinator this' = combinator this"
  using assms
proof (induction cs arbitrary: this)
  case Nil
  then show ?case by (simp add: spec_of_kind_def spec_stored_of_def)
next
  case (Cons c cs)
  from Cons.prems obtain mid where step: "fragment c this = Inr mid"
    and rest: "chain cs mid = Inr this'"
    by (rule chain_Cons_Inr)
  from Cons.IH [OF rest] fragment_fields [OF step] show ?case
    by (simp add: of_kind_Cons [of _ c cs])
qed

lemma spec_of_kind_nonempty:
  "(k, v) \<in> set cs \<Longrightarrow> spec_stored (k, v) \<noteq> [] \<Longrightarrow> spec_of_kind k cs \<noteq> []"
  by (force simp add: spec_of_kind_def spec_stored_of_def)

lemma spec_stored_of_nonempty: "(k, v) \<in> set cs \<Longrightarrow> spec_stored_of k cs \<noteq> []"
  by (force simp add: spec_stored_of_def filter_empty_conv)

text \<open>
  Every sequence the specification allows runs without a throw on a builder that admits
  it; a fresh builder admits every sequence.
\<close>

lemma fragment_admitted:
  assumes "spec_valid ((k, v) # cs)" and "admits this ((k, v) # cs)"
  shows "\<exists>mid. fragment (k, v) this = Inr mid \<and> admits mid cs"
  using assms
  by (cases k) (auto simp add: spec_valid_def admits_def method_defs)

lemma spec_valid_tail: "spec_valid (c # cs) \<Longrightarrow> spec_valid cs"
  by (auto simp add: spec_valid_def split: if_splits)

lemma chain_succeeds:
  "spec_valid cs \<Longrightarrow> admits this cs \<Longrightarrow> \<exists>this'. chain cs this = Inr this'"
proof (induction cs arbitrary: this)
  case Nil
  then show ?case by simp
next
  case (Cons c cs)
  obtain k v where c: "c = (k, v)" by (cases c)
  from Cons.prems obtain mid where step: "fragment c this = Inr mid" and adm: "admits mid cs"
    unfolding c using fragment_admitted by blast
  from Cons.prems(1) have "spec_valid cs" by (rule spec_valid_tail)
  with adm obtain this' where "chain cs mid = Inr this'"
    using Cons.IH by blast
  with step show ?case by simp
qed

lemma admits_constructor: "admits constructor cs"
  by (simp add: admits_def constructor_def)

subsection \<open>The store\<close>

lemma invoke_other: "r \<noteq> s \<Longrightarrow> snd (invoke m r h) ! s = h ! s"
  by (simp add: invoke_def split: sum.splits)

lemma invoke_length: "length (snd (invoke m r h)) = length h"
  by (simp add: invoke_def split: sum.splits)

lemma mutate_other: "\<forall>(r, m) \<in> set ops. r \<noteq> s \<Longrightarrow> mutate ops h ! s = h ! s"
  by (induction ops h rule: mutate.induct) (simp_all add: invoke_other)

lemma member_body_line: "member_body m this = Inr this' \<Longrightarrow> line this \<le> line this'"
  by (cases m) (auto simp add: setCombine_def dest: fragment_Inr)

lemma invoke_line:
  assumes "s < length h"
  shows "line (h ! s) \<le> line (snd (invoke (member_body m) r h) ! s)"
proof (cases "member_body m (h ! r)")
  case (Inl e)
  then show ?thesis by (simp add: invoke_def)
next
  case (Inr this')
  with assms member_body_line [OF Inr] show ?thesis
    by (cases "r = s") (simp_all add: invoke_def)
qed

lemma mutate_line: "s < length h \<Longrightarrow> line (h ! s) \<le> line (mutate ops h ! s)"
proof (induction ops h rule: mutate.induct)
  case (1 h)
  then show ?case by simp
next
  case (2 r m ops h)
  have "line (h ! s) \<le> line (snd (invoke (member_body m) r h) ! s)"
    using "2.prems" by (rule invoke_line)
  also have "\<dots> \<le> line (mutate ops (snd (invoke (member_body m) r h)) ! s)"
    using "2.prems" by (intro "2.IH") (simp add: invoke_length)
  finally show ?case by simp
qed

text \<open>
  An entry point of the facade starts a chain on a fresh object: on a fresh object no
  fragment method throws.
\<close>

lemma fragment_constructor: "\<exists>this. fragment c constructor = Inr this"
  by (cases c; cases "fst c") (simp_all add: method_defs constructor_def)

lemma cssSelectorBuilder_fragment_eq:
  "fragment c constructor = Inr this \<Longrightarrow>
   cssSelectorBuilder_fragment c h = (Inr (length h), h @ [this])"
  by (simp add: cssSelectorBuilder_fragment_def new_SelectorCreator_def invoke_def)

text \<open>The object \<^verbatim>\<open>combine\<close> builds: a fresh one after one call of \<^verbatim>\<open>element\<close>.\<close>

lemma combine_eq:
  assumes "selector1 < length h" and "selector2 < length h"
  shows "combine selector1 c selector2 h =
    (Inr (length h),
     h @ [constructor\<lparr>elementData :=
            stringify (h ! selector1) @ '' '' @ c @ '' '' @ stringify (h ! selector2),
          line := 1\<rparr>])"
  using assms
  by (simp add: combine_def new_SelectorCreator_def stringify_call_def invoke_def element_def
      nth_append constructor_def)

lemma after_element_stringify:
  "stringify (constructor\<lparr>elementData := e, line := n\<rparr>) = e"
  by (simp add: stringify_def constructor_def)

lemma after_element_fragment:
  assumes "k \<noteq> KElement"
  shows "\<exists>this'. fragment (k, v) (constructor\<lparr>elementData := e, line := 1\<rparr>) = Inr this' \<and>
           stringify this' = e @ spec_stored (k, v)"
  using assms by (cases k) (simp_all add: method_defs stringify_def constructor_def)

lemma after_element_element:
  "e \<noteq> [] \<Longrightarrow> element v (constructor\<lparr>elementData := e, line := 1\<rparr>) = Inl DuplicateError"
  by (simp add: method_defs)

section \<open>Properties of the selector builder\<close>

subsection \<open>Order and cardinality\<close>

text \<open>
  C1, as the code has it: in \<open>element\<close> and \<open>id\<close> the order check comes first. When a
  chain of calls on a fresh builder has succeeded and contains an \<open>id\<close> call, or an
  \<open>element\<close> call with a non-empty value, a further call of the same method fails with
  the order error if the stage exceeds the rank of the method, and with the duplicate
  error otherwise. A second \<open>pseudoElement\<close> call always fails with the duplicate
  error, since no stage exceeds its rank.
\<close>

theorem second_singleton_call:
  assumes "chain cs constructor = Inr this"
  shows "((KElement, v) \<in> set cs \<and> v \<noteq> [] \<longrightarrow>
            element w this = Inl (if 1 < line this then OrderError else DuplicateError)) \<and>
         ((KId, v) \<in> set cs \<longrightarrow>
            id_frag w this = Inl (if 2 < line this then OrderError else DuplicateError)) \<and>
         ((KPseudoElement, v) \<in> set cs \<longrightarrow> pseudoElement w this = Inl DuplicateError)"
proof (intro conjI impI)
  note fields = chain_fields [OF assms]
  { assume "(KElement, v) \<in> set cs \<and> v \<noteq> []"
    then have "spec_of_kind KElement cs \<noteq> []"
      using spec_of_kind_nonempty [of KElement v cs] by simp
    with fields have "elementData this \<noteq> []" by simp
    then show "element w this = Inl (if 1 < line this then OrderError else DuplicateError)"
      by (simp add: method_defs) }
  { assume "(KId, v) \<in> set cs"
    then have "spec_of_kind KId cs \<noteq> []"
      using spec_of_kind_nonempty [of KId v cs] by simp
    with fields have "idData this \<noteq> []" by simp
    then show "id_frag w this = Inl (if 2 < line this then OrderError else DuplicateError)"
      by (simp add: method_defs) }
  { assume "(KPseudoElement, v) \<in> set cs"
    then have "spec_stored_of KPseudoElement cs \<noteq> []"
      by (rule spec_stored_of_nonempty)
    with fields have "pseudoElementData this \<noteq> []" by simp
    moreover have "line this \<le> 6"
      using chain_line_le_6 [OF assms] by (simp add: constructor_def)
    ultimately show "pseudoElement w this = Inl DuplicateError"
      by (simp add: method_defs) }
qed

theorem second_singleton_call_witness:
  "chain [(KElement, ''a'')] constructor = Inr (constructor\<lparr>elementData := ''a'', line := 1\<rparr>) \<and>
   element ''b'' (constructor\<lparr>elementData := ''a'', line := 1\<rparr>) = Inl DuplicateError \<and>
   chain [(KId, ''x''), (KClass, ''c'')] constructor =
     Inr (constructor\<lparr>idData := ''#x'', classData := [''.c''], line := 3\<rparr>) \<and>
   id_frag ''y'' (constructor\<lparr>idData := ''#x'', classData := [''.c''], line := 3\<rparr>) =
     Inl OrderError \<and>
   chain [(KPseudoElement, ''after'')] constructor =
     Inr (constructor\<lparr>pseudoElementData := [''::after''], line := 6\<rparr>) \<and>
   pseudoElement ''before'' (constructor\<lparr>pseudoElementData := [''::after''], line := 6\<rparr>) =
     Inl DuplicateError"
proof -
  have e: "chain [(KElement, ''a'')] constructor =
      Inr (constructor\<lparr>elementData := ''a'', line := 1\<rparr>)"
    by (simp add: method_defs constructor_def)
  have i: "chain [(KId, ''x''), (KClass, ''c'')] constructor =
      Inr (constructor\<lparr>idData := ''#x'', classData := [''.c''], line := 3\<rparr>)"
    by (simp add: method_defs constructor_def)
  have p: "chain [(KPseudoElement, ''after'')] constructor =
      Inr (constructor\<lparr>pseudoElementData := [''::after''], line := 6\<rparr>)"
    by (simp add: method_defs constructor_def)
  from second_singleton_call [OF e, of "''a''" "''b''"]
    second_singleton_call [OF i, of "''x''" "''y''"]
    second_singleton_call [OF p, of "''after''" "''before''"]
  show ?thesis using e i p by simp
qed

text \<open>
  The claim C1 as it is written fails: after \<open>element('a').class('c')\<close> the call
  \<open>element('b')\<close> throws the order error, not the duplicate error, and so does
  \<open>id('y')\<close> after \<open>id('x').class('c')\<close>.
\<close>

theorem duplicate_after_later_kind_is_order_error:
  "chain [(KElement, ''a''), (KClass, ''c''), (KElement, ''b'')] constructor = Inl OrderError \<and>
   chain [(KElement, ''a''), (KClass, ''c''), (KElement, ''b'')] constructor \<noteq> Inl DuplicateError \<and>
   chain [(KId, ''x''), (KClass, ''c''), (KId, ''y'')] constructor = Inl OrderError \<and>
   chain [(KId, ''x''), (KClass, ''c''), (KId, ''y'')] constructor \<noteq> Inl DuplicateError"
  by (simp add: method_defs constructor_def)

text \<open>
  C5: a fragment method throws the order error exactly when the stage of the builder
  is greater than the rank of the method. After a successful \<open>class\<close> call \<open>element\<close>
  throws it, after a successful \<open>attr\<close> call \<open>class\<close> throws it, and a second \<open>class\<close>
  call in a row succeeds, with both values stored in call order.
\<close>

theorem order_error_iff:
  "(fragment (k, v) this = Inl OrderError \<longleftrightarrow> spec_rank k < line this) \<and>
   (class_frag c this = Inr this1 \<longrightarrow> element e this1 = Inl OrderError) \<and>
   (attr a this = Inr this2 \<longrightarrow> class_frag c this2 = Inl OrderError) \<and>
   (class_frag c this = Inr this1 \<longrightarrow>
      class_frag c' this1 =
        Inr (this1\<lparr>classData := classData this @ [''.'' @ c, ''.'' @ c'], line := 3\<rparr>))"
proof (intro conjI impI)
  show "fragment (k, v) this = Inl OrderError \<longleftrightarrow> spec_rank k < line this"
    by (cases k) (simp_all add: method_defs)
  show "element e this1 = Inl OrderError" if "class_frag c this = Inr this1"
    using that by (auto simp add: method_defs split: if_splits)
  show "class_frag c this2 = Inl OrderError" if "attr a this = Inr this2"
    using that by (auto simp add: method_defs split: if_splits)
  show "class_frag c' this1 =
      Inr (this1\<lparr>classData := classData this @ [''.'' @ c, ''.'' @ c'], line := 3\<rparr>)"
    if "class_frag c this = Inr this1"
    using that by (auto simp add: method_defs split: if_splits)
qed

theorem order_error_iff_witness:
  "class_frag ''c'' constructor = Inr (constructor\<lparr>classData := [''.c''], line := 3\<rparr>) \<and>
   element ''div'' (constructor\<lparr>classData := [''.c''], line := 3\<rparr>) = Inl OrderError \<and>
   attr ''a'' constructor = Inr (constructor\<lparr>attrData := [''[a]''], line := 4\<rparr>) \<and>
   class_frag ''c'' (constructor\<lparr>attrData := [''[a]''], line := 4\<rparr>) = Inl OrderError \<and>
   class_frag ''d'' (constructor\<lparr>classData := [''.c''], line := 3\<rparr>) =
     Inr (constructor\<lparr>classData := [''.c'', ''.d''], line := 3\<rparr>)"
proof -
  have c: "class_frag ''c'' constructor = Inr (constructor\<lparr>classData := [''.c''], line := 3\<rparr>)"
    by (simp add: method_defs constructor_def)
  have a: "attr ''a'' constructor = Inr (constructor\<lparr>attrData := [''[a]''], line := 4\<rparr>)"
    by (simp add: method_defs constructor_def)
  from order_error_iff [of KElement "''div''" constructor "''c''"
      "constructor\<lparr>classData := [''.c''], line := 3\<rparr>" "''div''" "''a''"
      "constructor\<lparr>attrData := [''[a]''], line := 4\<rparr>" "''d''"]
  show ?thesis using c a by (simp add: constructor_def)
qed

text \<open>
  C6: the stage never decreases. A fragment call that returns leaves the stage at the
  rank of its method, and the stage before was at most that rank; so the stage at the
  end of a chain of successful calls is at least the stage at its start, and over any
  sequence of method calls on the objects of a store, failed ones included, the stage of
  every object is at least what it was.
\<close>

theorem stage_never_decreases:
  "(fragment (k, v) this = Inr this' \<longrightarrow> line this' = spec_rank k \<and> line this \<le> spec_rank k) \<and>
   (chain cs this = Inr this'' \<longrightarrow> line this \<le> line this'') \<and>
   (s < length h \<longrightarrow> line (h ! s) \<le> line (mutate ops h ! s))"
proof (intro conjI impI)
  assume "fragment (k, v) this = Inr this'"
  from fragment_Inr [OF this] show "line this' = spec_rank k" and "line this \<le> spec_rank k"
    by simp_all
next
  assume "chain cs this = Inr this''"
  then show "line this \<le> line this''" by (rule chain_line_mono)
next
  assume "s < length h"
  then show "line (h ! s) \<le> line (mutate ops h ! s)" by (rule mutate_line)
qed

theorem stage_never_decreases_witness:
  "fragment (KClass, ''c'') (constructor\<lparr>idData := ''#x'', line := 2\<rparr>) =
     Inr (constructor\<lparr>idData := ''#x'', classData := [''.c''], line := 3\<rparr>) \<and>
   chain [(KClass, ''c''), (KPseudoClass, ''hover'')] (constructor\<lparr>idData := ''#x'', line := 2\<rparr>)
     = Inr (constructor\<lparr>idData := ''#x'', classData := [''.c''],
              pseudoClassData := ['':hover''], line := 5\<rparr>) \<and>
   (0::nat) < length [constructor\<lparr>idData := ''#x'', line := 2\<rparr>] \<and>
   line ([constructor\<lparr>idData := ''#x'', line := 2\<rparr>] ! 0) \<le>
     line (mutate [(0, Fragment (KAttr, ''a'')), (0, Fragment (KElement, ''e'')),
                   (0, SetCombine ''+'' ''p'')]
             [constructor\<lparr>idData := ''#x'', line := 2\<rparr>] ! 0)"
proof -
  have f: "fragment (KClass, ''c'') (constructor\<lparr>idData := ''#x'', line := 2\<rparr>) =
     Inr (constructor\<lparr>idData := ''#x'', classData := [''.c''], line := 3\<rparr>)"
    by (simp add: method_defs constructor_def)
  have c: "chain [(KClass, ''c''), (KPseudoClass, ''hover'')]
       (constructor\<lparr>idData := ''#x'', line := 2\<rparr>)
     = Inr (constructor\<lparr>idData := ''#x'', classData := [''.c''],
              pseudoClassData := ['':hover''], line := 5\<rparr>)"
    by (simp add: method_defs constructor_def)
  have l: "(0::nat) < length [constructor\<lparr>idData := ''#x'', line := 2\<rparr>]"
    by simp
  from stage_never_decreases [of KClass "''c''" "constructor\<lparr>idData := ''#x'', line := 2\<rparr>"
      "constructor\<lparr>idData := ''#x'', classData := [''.c''], line := 3\<rparr>"
      "[(KClass, ''c''), (KPseudoClass, ''hover'')]"
      "constructor\<lparr>idData := ''#x'', classData := [''.c''],
              pseudoClassData := ['':hover''], line := 5\<rparr>"
      0 "[constructor\<lparr>idData := ''#x'', line := 2\<rparr>]"
      "[(0, Fragment (KAttr, ''a'')), (0, Fragment (KElement, ''e'')),
        (0, SetCombine ''+'' ''p'')]"]
  show ?thesis using f c l by blast
qed

subsection \<open>Rendering\<close>

text \<open>
  C2: when a sequence of fragment calls on a fresh builder has run without an error,
  \<open>stringify\<close> returns the concatenation, in the fixed order of the kinds, of the stored
  texts: the element value as it is, the id after \<open>#\<close>, each class after a dot, each
  attribute in brackets, each pseudo-class after a colon and the pseudo-element after
  two colons, the calls of one kind in call order. Every sequence whose ranks never
  decrease and that calls element, id and pseudo-element at most once does run without
  an error, and so renders as that concatenation. In particular
  \<open>id('main').class('container').class('editable')\<close> renders as
  \<open>#main.container.editable\<close>.
\<close>

theorem chain_stringify:
  "(chain cs constructor = Inr this \<longrightarrow> stringify this = spec_render cs) \<and>
   (spec_valid cs \<longrightarrow>
      (\<exists>b. chain cs constructor = Inr b \<and> stringify b = spec_render cs)) \<and>
   (\<exists>b. chain [(KId, ''main''), (KClass, ''container''), (KClass, ''editable'')] constructor
          = Inr b \<and>
        stringify b = ''#main.container.editable'')"
proof (intro conjI impI)
  have rendered: "stringify b = spec_render cs" if "chain cs constructor = Inr b" for b
  proof -
    have "concat (spec_stored_of k cs) = spec_of_kind k cs" for k
      by (simp add: spec_of_kind_def)
    with chain_fields [OF that] show ?thesis
      by (simp add: stringify_def spec_render_def constructor_def)
  qed
  show "stringify this = spec_render cs" if "chain cs constructor = Inr this"
    using that by (rule rendered)
  show "\<exists>b. chain cs constructor = Inr b \<and> stringify b = spec_render cs" if "spec_valid cs"
  proof -
    from that admits_constructor obtain b where "chain cs constructor = Inr b"
      using chain_succeeds by blast
    with rendered show ?thesis by blast
  qed
  show "\<exists>b. chain [(KId, ''main''), (KClass, ''container''), (KClass, ''editable'')] constructor
            = Inr b \<and>
          stringify b = ''#main.container.editable''"
    by (simp add: method_defs constructor_def stringify_def)
qed

theorem chain_stringify_witness:
  "spec_valid [(KElement, ''a''), (KId, ''i''), (KClass, ''c''), (KClass, ''d''),
       (KAttr, ''href''), (KPseudoClass, ''focus''), (KPseudoElement, ''after'')] \<and>
   chain [(KElement, ''a''), (KId, ''i''), (KClass, ''c''), (KClass, ''d''),
       (KAttr, ''href''), (KPseudoClass, ''focus''), (KPseudoElement, ''after'')] constructor =
     Inr (constructor\<lparr>idData := ''#i'', elementData := ''a'', classData := [''.c'', ''.d''],
            attrData := [''[href]''], pseudoClassData := ['':focus''],
            pseudoElementData := [''::after''], line := 6\<rparr>) \<and>
   stringify (constructor\<lparr>idData := ''#i'', elementData := ''a'', classData := [''.c'', ''.d''],
            attrData := [''[href]''], pseudoClassData := ['':focus''],
            pseudoElementData := [''::after''], line := 6\<rparr>) = ''a#i.c.d[href]:focus::after'' \<and>
   spec_render [(KElement, ''a''), (KId, ''i''), (KClass, ''c''), (KClass, ''d''),
       (KAttr, ''href''), (KPseudoClass, ''focus''), (KPseudoElement, ''after'')] =
     ''a#i.c.d[href]:focus::after''"
proof -
  let ?cs = "[(KElement, ''a''), (KId, ''i''), (KClass, ''c''), (KClass, ''d''),
       (KAttr, ''href''), (KPseudoClass, ''focus''), (KPseudoElement, ''after'')]"
  let ?b = "constructor\<lparr>idData := ''#i'', elementData := ''a'', classData := [''.c'', ''.d''],
            attrData := [''[href]''], pseudoClassData := ['':focus''],
            pseudoElementData := [''::after''], line := 6\<rparr>"
  have valid: "spec_valid ?cs"
    by (simp add: spec_valid_def)
  have run: "chain ?cs constructor = Inr ?b"
    by (simp add: method_defs constructor_def)
  have out: "spec_render ?cs = ''a#i.c.d[href]:focus::after''"
    by (simp add: spec_render_def spec_of_kind_def spec_stored_of_def)
  from chain_stringify [of ?cs ?b] run have "stringify ?b = spec_render ?cs"
    by blast
  moreover from chain_stringify [of ?cs ?b] valid
  have "\<exists>b. chain ?cs constructor = Inr b \<and> stringify b = spec_render ?cs"
    by blast
  ultimately show ?thesis using valid run out by simp
qed

text \<open>
  C7: \<open>stringify\<close> reads the builder and writes nothing: the store after the call is
  the store before it, and a second call right after the first returns the same
  string.
\<close>

theorem stringify_call_pure:
  "snd (stringify_call r h) = h \<and>
   fst (stringify_call r (snd (stringify_call r h))) = fst (stringify_call r h)"
  by (simp add: stringify_call_def)

text \<open>
  C8: after \<open>setCombine c s\<close> the value \<open>s\<close> sits in the field \<open>selector\<close>, which
  \<open>stringify\<close> never reads: the output is the compound selector followed by \<open>c\<close>
  alone. The facade's \<open>combine\<close> does not go through these fields: the builder it
  returns has both of them empty and carries the whole combined text as its element.
\<close>

theorem setCombine_selector_not_rendered:
  "selector (setCombine c s this) = s \<and>
   stringify (setCombine c s this) = stringify (this\<lparr>combinator := ''''\<rparr>) @ c \<and>
   stringify (setCombine c s this) =
     elementData this @ idData this @ concat (classData this) @ concat (attrData this) @
     concat (pseudoClassData this) @ concat (pseudoElementData this) @ c \<and>
   (selector1 < length h \<and> selector2 < length h \<longrightarrow>
      (\<exists>r h'. combine selector1 c selector2 h = (Inr r, h') \<and>
         combinator (h' ! r) = '''' \<and> selector (h' ! r) = '''' \<and>
         elementData (h' ! r) =
           stringify (h ! selector1) @ '' '' @ c @ '' '' @ stringify (h ! selector2)))"
proof (intro conjI impI)
  show "selector (setCombine c s this) = s"
    by (simp add: setCombine_def)
  show "stringify (setCombine c s this) = stringify (this\<lparr>combinator := ''''\<rparr>) @ c"
    by (simp add: setCombine_def stringify_def)
  show "stringify (setCombine c s this) =
     elementData this @ idData this @ concat (classData this) @ concat (attrData this) @
     concat (pseudoClassData this) @ concat (pseudoElementData this) @ c"
    by (simp add: setCombine_def stringify_def)
  assume "selector1 < length h \<and> selector2 < length h"
  then show "\<exists>r h'. combine selector1 c selector2 h = (Inr r, h') \<and>
         combinator (h' ! r) = '''' \<and> selector (h' ! r) = '''' \<and>
         elementData (h' ! r) =
           stringify (h ! selector1) @ '' '' @ c @ '' '' @ stringify (h ! selector2)"
    by (simp add: combine_eq constructor_def)
qed

theorem setCombine_selector_not_rendered_witness:
  "stringify (setCombine ''+'' ''p'' (constructor\<lparr>elementData := ''div'', line := 1\<rparr>)) = ''div+'' \<and>
   (0::nat) < length [constructor\<lparr>elementData := ''div'', line := 1\<rparr>,
                      constructor\<lparr>elementData := ''p'', line := 1\<rparr>] \<and>
   (1::nat) < length [constructor\<lparr>elementData := ''div'', line := 1\<rparr>,
                      constructor\<lparr>elementData := ''p'', line := 1\<rparr>] \<and>
   combine 0 ''+'' 1 [constructor\<lparr>elementData := ''div'', line := 1\<rparr>,
                      constructor\<lparr>elementData := ''p'', line := 1\<rparr>] =
     (Inr 2, [constructor\<lparr>elementData := ''div'', line := 1\<rparr>,
              constructor\<lparr>elementData := ''p'', line := 1\<rparr>,
              constructor\<lparr>elementData := ''div + p'', line := 1\<rparr>])"
proof -
  let ?h = "[constructor\<lparr>elementData := ''div'', line := 1\<rparr>,
             constructor\<lparr>elementData := ''p'', line := 1\<rparr>]"
  have l: "(0::nat) < length ?h \<and> (1::nat) < length ?h"
    by simp
  have c: "combine 0 ''+'' 1 ?h =
      (Inr 2, ?h @ [constructor\<lparr>elementData := ''div + p'', line := 1\<rparr>])"
    by (simp add: combine_eq after_element_stringify)
  from setCombine_selector_not_rendered [of "''+''" "''p''"
      "constructor\<lparr>elementData := ''div'', line := 1\<rparr>" 0 ?h 1]
  have "stringify (setCombine ''+'' ''p'' (constructor\<lparr>elementData := ''div'', line := 1\<rparr>)) =
      ''div+''"
    by (simp add: constructor_def stringify_def setCombine_def)
  with l c show ?thesis by simp
qed

subsection \<open>Combination\<close>

text \<open>
  C3: for all selectors \<open>a\<close> and \<open>b\<close> of the store and every string \<open>c\<close>,
  \<open>combine a c b\<close> returns a builder whose \<open>stringify\<close> is that of \<open>a\<close>, a space,
  \<open>c\<close>, a space and that of \<open>b\<close>; no token is refused.
\<close>

theorem combine_stringify:
  assumes "selector1 < length h" and "selector2 < length h"
  shows "\<exists>s h'. combine selector1 c selector2 h = (Inr s, h') \<and>
           stringify (h' ! s) =
             stringify (h ! selector1) @ '' '' @ c @ '' '' @ stringify (h ! selector2)"
  unfolding combine_eq [OF assms]
  by (simp add: after_element_stringify)

theorem combine_stringify_witness:
  "(0::nat) < length [constructor\<lparr>elementData := ''div'', idData := ''#main'', line := 2\<rparr>,
                      constructor\<lparr>classData := [''.c''], line := 3\<rparr>] \<and>
   (1::nat) < length [constructor\<lparr>elementData := ''div'', idData := ''#main'', line := 2\<rparr>,
                      constructor\<lparr>classData := [''.c''], line := 3\<rparr>] \<and>
   fst (combine 0 ''any token'' 1
          [constructor\<lparr>elementData := ''div'', idData := ''#main'', line := 2\<rparr>,
           constructor\<lparr>classData := [''.c''], line := 3\<rparr>]) = Inr 2 \<and>
   stringify (snd (combine 0 ''any token'' 1
          [constructor\<lparr>elementData := ''div'', idData := ''#main'', line := 2\<rparr>,
           constructor\<lparr>classData := [''.c''], line := 3\<rparr>]) ! 2) = ''div#main any token .c''"
proof -
  have l: "(0::nat) < length [constructor\<lparr>elementData := ''div'', idData := ''#main'', line := 2\<rparr>,
                      constructor\<lparr>classData := [''.c''], line := 3\<rparr>]"
    "(1::nat) < length [constructor\<lparr>elementData := ''div'', idData := ''#main'', line := 2\<rparr>,
                      constructor\<lparr>classData := [''.c''], line := 3\<rparr>]"
    by simp_all
  from combine_stringify [OF l, of "''any token''"] obtain s h' where
    c: "combine 0 ''any token'' 1
          [constructor\<lparr>elementData := ''div'', idData := ''#main'', line := 2\<rparr>,
           constructor\<lparr>classData := [''.c''], line := 3\<rparr>] = (Inr s, h')"
    and s: "stringify (h' ! s) =
       stringify ([constructor\<lparr>elementData := ''div'', idData := ''#main'', line := 2\<rparr>,
           constructor\<lparr>classData := [''.c''], line := 3\<rparr>] ! 0) @ '' '' @ ''any token'' @ '' '' @
       stringify ([constructor\<lparr>elementData := ''div'', idData := ''#main'', line := 2\<rparr>,
           constructor\<lparr>classData := [''.c''], line := 3\<rparr>] ! 1)"
    by blast
  from c have "s = 2" by (simp add: combine_eq)
  with c s l show ?thesis by (simp add: stringify_def constructor_def)
qed

text \<open>
  C4: once \<open>combine a c b\<close> has returned the builder \<open>s\<close>, no sequence of method calls
  on \<open>a\<close> or \<open>b\<close> changes what \<open>s\<close> renders: the new builder holds a copy of the text
  of the operands, not a reference to them.
\<close>

theorem combine_copies_operands:
  assumes "selector1 < length h" and "selector2 < length h"
    and "combine selector1 c selector2 h = (Inr s, h1)"
    and "\<forall>(r, m) \<in> set ops. r = selector1 \<or> r = selector2"
  shows "stringify (mutate ops h1 ! s) = stringify (h1 ! s) \<and>
         stringify (mutate ops h1 ! s) =
           stringify (h ! selector1) @ '' '' @ c @ '' '' @ stringify (h ! selector2)"
proof -
  from assms(3) have s: "s = length h"
    and h1: "h1 = h @ [constructor\<lparr>elementData :=
            stringify (h ! selector1) @ '' '' @ c @ '' '' @ stringify (h ! selector2),
          line := 1\<rparr>]"
    unfolding combine_eq [OF assms(1,2)] by simp_all
  from s assms(1,2,4) have "\<forall>(r, m) \<in> set ops. r \<noteq> s" by auto
  then have "mutate ops h1 ! s = h1 ! s" by (rule mutate_other)
  moreover from s h1 have "stringify (h1 ! s) =
      stringify (h ! selector1) @ '' '' @ c @ '' '' @ stringify (h ! selector2)"
    by (simp add: after_element_stringify)
  ultimately show ?thesis by simp
qed

theorem combine_copies_operands_witness:
  "combine 0 ''+'' 1 [constructor\<lparr>elementData := ''div'', line := 1\<rparr>,
                      constructor\<lparr>elementData := ''p'', line := 1\<rparr>] =
     (Inr 2, [constructor\<lparr>elementData := ''div'', line := 1\<rparr>,
              constructor\<lparr>elementData := ''p'', line := 1\<rparr>,
              constructor\<lparr>elementData := ''div + p'', line := 1\<rparr>]) \<and>
   stringify (mutate [(0, Fragment (KClass, ''x'')), (1, SetCombine ''>'' ''q'')]
       [constructor\<lparr>elementData := ''div'', line := 1\<rparr>,
        constructor\<lparr>elementData := ''p'', line := 1\<rparr>,
        constructor\<lparr>elementData := ''div + p'', line := 1\<rparr>] ! 0) = ''div.x'' \<and>
   stringify (mutate [(0, Fragment (KClass, ''x'')), (1, SetCombine ''>'' ''q'')]
       [constructor\<lparr>elementData := ''div'', line := 1\<rparr>,
        constructor\<lparr>elementData := ''p'', line := 1\<rparr>,
        constructor\<lparr>elementData := ''div + p'', line := 1\<rparr>] ! 2) = ''div + p''"
proof -
  let ?h = "[constructor\<lparr>elementData := ''div'', line := 1\<rparr>,
             constructor\<lparr>elementData := ''p'', line := 1\<rparr>]"
  let ?ops = "[(0, Fragment (KClass, ''x'')), (1, SetCombine ''>'' ''q'')]"
  have l: "(0::nat) < length ?h" "(1::nat) < length ?h"
    by simp_all
  have c: "combine 0 ''+'' 1 ?h =
      (Inr 2, ?h @ [constructor\<lparr>elementData := ''div + p'', line := 1\<rparr>])"
    by (simp add: combine_eq after_element_stringify)
  have t: "\<forall>(r, m) \<in> set ?ops. r = (0::nat) \<or> r = 1"
    by simp
  have a: "stringify (mutate ?ops (?h @ [constructor\<lparr>elementData := ''div + p'', line := 1\<rparr>])
      ! 0) = ''div.x''"
    by (simp add: invoke_def method_defs setCombine_def stringify_def constructor_def)
  from combine_copies_operands [OF l c t] show ?thesis using c a
    by (simp add: after_element_stringify)
qed

text \<open>
  C9: the builder that \<open>combine a c b\<close> returns is at stage 1 and has the whole
  combined text as its element. Every fragment method but \<open>element\<close> can still be
  called on it and appends its stored text to the combined text, so \<open>id('x')\<close> gives
  the combined text followed by \<open>#x\<close>; a call of \<open>element\<close> on it throws the
  duplicate error.
\<close>

theorem combine_result_is_element:
  assumes "selector1 < length h" and "selector2 < length h"
  shows "\<exists>s h1. combine selector1 c selector2 h = (Inr s, h1) \<and>
     line (h1 ! s) = 1 \<and>
     elementData (h1 ! s) =
       stringify (h ! selector1) @ '' '' @ c @ '' '' @ stringify (h ! selector2) \<and>
     (\<forall>k v. k \<noteq> KElement \<longrightarrow>
        (\<exists>h2. invoke (fragment (k, v)) s h1 = (Inr s, h2) \<and>
           stringify (h2 ! s) =
             stringify (h ! selector1) @ '' '' @ c @ '' '' @ stringify (h ! selector2) @
             spec_stored (k, v))) \<and>
     (\<exists>h2. invoke (id_frag ''x'') s h1 = (Inr s, h2) \<and>
        stringify (h2 ! s) =
          stringify (h ! selector1) @ '' '' @ c @ '' '' @ stringify (h ! selector2) @ ''#x'') \<and>
     (\<forall>v. invoke (element v) s h1 = (Inl DuplicateError, h1))"
proof -
  let ?e = "stringify (h ! selector1) @ '' '' @ c @ '' '' @ stringify (h ! selector2)"
  let ?b = "constructor\<lparr>elementData := ?e, line := 1\<rparr>"
  have c: "combine selector1 c selector2 h = (Inr (length h), h @ [?b])"
    using assms by (rule combine_eq)
  have others: "\<exists>h2. invoke (fragment (k, v)) (length h) (h @ [?b]) = (Inr (length h), h2) \<and>
      stringify (h2 ! length h) = ?e @ spec_stored (k, v)" if "k \<noteq> KElement" for k v
  proof -
    from after_element_fragment [OF that, of v ?e] obtain this' where
      "fragment (k, v) ?b = Inr this'" and "stringify this' = ?e @ spec_stored (k, v)"
      by blast
    then show ?thesis by (simp add: invoke_def)
  qed
  have el: "invoke (element v) (length h) (h @ [?b]) = (Inl DuplicateError, h @ [?b])" for v
  proof -
    have "element v ?b = Inl DuplicateError"
      by (rule after_element_element) simp
    moreover have "(h @ [?b]) ! length h = ?b"
      by (rule nth_append_length)
    ultimately show ?thesis
      by (simp only: invoke_def sum.case)
  qed
  have "fragment (KId, ''x'') = id_frag ''x''"
    by (rule ext) simp
  with others [of KId "''x''"] have idx:
    "\<exists>h2. invoke (id_frag ''x'') (length h) (h @ [?b]) = (Inr (length h), h2) \<and>
      stringify (h2 ! length h) = ?e @ ''#x''"
    by simp
  have "line ((h @ [?b]) ! length h) = 1" "elementData ((h @ [?b]) ! length h) = ?e"
    by simp_all
  with c others el idx show ?thesis
    by (intro exI [of _ "length h"] exI [of _ "h @ [?b]"]) simp
qed

theorem combine_result_is_element_witness:
  "combine 0 ''+'' 1 [constructor\<lparr>elementData := ''div'', line := 1\<rparr>,
                      constructor\<lparr>elementData := ''p'', line := 1\<rparr>] =
     (Inr 2, [constructor\<lparr>elementData := ''div'', line := 1\<rparr>,
              constructor\<lparr>elementData := ''p'', line := 1\<rparr>,
              constructor\<lparr>elementData := ''div + p'', line := 1\<rparr>]) \<and>
   invoke (fragment (KId, ''x'')) 2
       [constructor\<lparr>elementData := ''div'', line := 1\<rparr>,
        constructor\<lparr>elementData := ''p'', line := 1\<rparr>,
        constructor\<lparr>elementData := ''div + p'', line := 1\<rparr>] =
     (Inr 2, [constructor\<lparr>elementData := ''div'', line := 1\<rparr>,
              constructor\<lparr>elementData := ''p'', line := 1\<rparr>,
              constructor\<lparr>elementData := ''div + p'', idData := ''#x'', line := 2\<rparr>]) \<and>
   stringify (constructor\<lparr>elementData := ''div + p'', idData := ''#x'', line := 2\<rparr>) =
     ''div + p#x'' \<and>
   fst (invoke (element ''e'') 2
       [constructor\<lparr>elementData := ''div'', line := 1\<rparr>,
        constructor\<lparr>elementData := ''p'', line := 1\<rparr>,
        constructor\<lparr>elementData := ''div + p'', line := 1\<rparr>]) = Inl DuplicateError"
proof -
  let ?h = "[constructor\<lparr>elementData := ''div'', line := 1\<rparr>,
             constructor\<lparr>elementData := ''p'', line := 1\<rparr>]"
  have l: "(0::nat) < length ?h" "(1::nat) < length ?h"
    by simp_all
  from combine_result_is_element [OF l, of "''+''"] obtain s h1 where
    c: "combine 0 ''+'' 1 ?h = (Inr s, h1)"
    and o: "\<forall>k v. k \<noteq> KElement \<longrightarrow>
        (\<exists>h2. invoke (fragment (k, v)) s h1 = (Inr s, h2) \<and>
           stringify (h2 ! s) =
             stringify (?h ! 0) @ '' '' @ ''+'' @ '' '' @ stringify (?h ! 1) @
             spec_stored (k, v))"
    and e: "\<forall>v. invoke (element v) s h1 = (Inl DuplicateError, h1)"
    by blast
  from c have s: "s = 2"
    and h1: "h1 = ?h @ [constructor\<lparr>elementData := ''div + p'', line := 1\<rparr>]"
    by (simp_all add: combine_eq after_element_stringify)
  have k: "KId \<noteq> KElement" by simp
  from o k obtain h2 where i: "invoke (fragment (KId, ''x'')) s h1 = (Inr s, h2)"
    and r: "stringify (h2 ! s) =
       stringify (?h ! 0) @ '' '' @ ''+'' @ '' '' @ stringify (?h ! 1) @ spec_stored (KId, ''x'')"
    by blast
  from i s h1 have h2: "h2 = ?h @ [constructor\<lparr>elementData := ''div + p'', idData := ''#x'',
      line := 2\<rparr>]"
    by (simp add: invoke_def method_defs constructor_def)
  from c s h1 i h2 r e show ?thesis
    by (simp add: after_element_stringify)
qed

section \<open>Properties of the rectangle\<close>

text \<open>
  C10: for all numbers \<open>w\<close> and \<open>h\<close>, the object returned by \<open>Rectangle w h\<close> has
  width \<open>w\<close> and height \<open>h\<close>, and \<open>getArea\<close> returns their product; the method reads
  the fields at the time of the call, so after an assignment to a field it returns the
  product of the current values.
\<close>

theorem Rectangle_getArea:
  "width (Rectangle w h) = w \<and> height (Rectangle w h) = h \<and>
   getArea (Rectangle w h) = w * h \<and>
   getArea ((Rectangle w h)\<lparr>width := w'\<rparr>) = w' * h \<and>
   getArea ((Rectangle w h)\<lparr>height := h'\<rparr>) = w * h'"
  by (simp add: Rectangle_def getArea_def)

end
